theory Spec2Isabelle
  imports Complex_Main
begin

section \<open>The Meraki request stage: credential handling, retrying requests, name resolution\<close>

text \<open>
  A shallow embedding of \<^verbatim>\<open>src/meraki_requests_stage.py\<close>.

  Python strings are lists of characters; a \<^typ>\<open>char\<close> is read as a code point
  below 256 (Latin-1), so \<open>length\<close> counts what Python's \<^verbatim>\<open>len\<close> counts on
  such strings. Exceptions are values of the type \<open>exn\<close>; a function that can raise
  returns \<open>exn + 'a\<close>. The network and the clock are an explicit trace of events that
  every effectful function takes and returns extended.

  The functions keep the names of the source without the leading underscore:
  \<^verbatim>\<open>_clean_key\<close> is \<open>clean_key\<close>, \<^verbatim>\<open>_mask\<close> is \<open>mask_key\<close>, and for the two decorated
  functions \<^verbatim>\<open>_get\<close> and \<^verbatim>\<open>_put\<close> the function as written is \<open>get_body\<close>,
  \<open>put_body\<close> and the function with its retry decorator is \<open>get\<close>, \<open>put\<close>.
\<close>

subsection \<open>Strings as Python sees them\<close>

abbreviation dquote :: char where
  "dquote \<equiv> CHR 0x22"

abbreviation squote :: char where
  "squote \<equiv> CHR 0x27"

abbreviation star :: char where
  "star \<equiv> CHR ''*''"

abbreviation newline :: char where
  "newline \<equiv> CHR 0x0A"

text \<open>
  \<^verbatim>\<open>str.isspace\<close> on one character, for the code points below 256: TAB, LF, VT, FF,
  CR, the separators FS, GS, RS, US, the space, NEL and the no-break space.
\<close>

definition is_space :: "char \<Rightarrow> bool" where
  "is_space c =
     (let n = (of_char c :: nat)
      in (9 \<le> n \<and> n \<le> 13) \<or> (28 \<le> n \<and> n \<le> 32) \<or> n = 133 \<or> n = 160)"

text \<open>\<^verbatim>\<open>s.lstrip(chars)\<close>, \<^verbatim>\<open>s.rstrip(chars)\<close> and \<^verbatim>\<open>s.strip(chars)\<close>, the set of
  characters given as a predicate.\<close>

definition lstrip :: "(char \<Rightarrow> bool) \<Rightarrow> string \<Rightarrow> string" where
  "lstrip p s = dropWhile p s"

definition rstrip :: "(char \<Rightarrow> bool) \<Rightarrow> string \<Rightarrow> string" where
  "rstrip p s = rev (dropWhile p (rev s))"

definition strip :: "(char \<Rightarrow> bool) \<Rightarrow> string \<Rightarrow> string" where
  "strip p s = rstrip p (lstrip p s)"

text \<open>
  \<^verbatim>\<open>str.lower\<close> on one character below 256: the ASCII capitals and the Latin-1
  capitals (0xC0 to 0xDE without the multiplication sign 0xD7) move up by 32.
\<close>

definition lower_char :: "char \<Rightarrow> char" where
  "lower_char c =
     (let n = (of_char c :: nat)
      in if (65 \<le> n \<and> n \<le> 90) \<or> (192 \<le> n \<and> n \<le> 222 \<and> n \<noteq> 215)
         then char_of (n + 32) else c)"

definition lower :: "string \<Rightarrow> string" where
  "lower s = map lower_char s"

subsection \<open>Credential Normalizer\<close>

text \<open>
  \<^verbatim>\<open>def _clean_key(v): return (v or "").strip().strip('"').strip("'")\<close>

  \<open>None\<close> is Python's \<^verbatim>\<open>None\<close>; \<^verbatim>\<open>v or ""\<close> is the empty string for both
  \<^verbatim>\<open>None\<close> and the empty string.
\<close>

definition clean_key :: "string option \<Rightarrow> string" where
  "clean_key v =
     strip (\<lambda>c. c = squote)
       (strip (\<lambda>c. c = dquote)
          (strip is_space (case v of None \<Rightarrow> [] | Some s \<Rightarrow> s)))"

text \<open>
  \<^verbatim>\<open>
  def _mask(k):
      if not k: return ""
      if len(k) <= 6: return "*" * len(k)
      return k[:3] + "*" * (len(k)-6) + k[-3:]
  \<close>
  \<^verbatim>\<open>k[-3:]\<close> is the last three characters, and all of \<open>k\<close> when it is shorter:
  \<open>drop (length k - 3) k\<close> with the truncating subtraction of \<^typ>\<open>nat\<close>.
\<close>

definition mask_key :: "string \<Rightarrow> string" where
  "mask_key k =
     (if k = [] then []
      else if length k \<le> 6 then replicate (length k) star
      else take 3 k @ replicate (length k - 6) star @ drop (length k - 3) k)"

text \<open>
  The credential check of \<^verbatim>\<open>main\<close> (lines 120 to 139): the raw value of the
  environment variable (\<open>None\<close> when unset) is cleaned, and the process exits unless
  the cleaned key looks valid.
  \<^verbatim>\<open>
  api = _clean_key(raw_env)
  if not api or api.lower() in {"your_api_key_here", "placeholder"} or len(api) < 20:
      raise SystemExit(...)
  \<close>
\<close>

definition placeholders :: "string list" where
  "placeholders = [''your_api_key_here'', ''placeholder'']"

definition key_rejected :: "string \<Rightarrow> bool" where
  "key_rejected api = (api = [] \<or> lower api \<in> set placeholders \<or> length api < 20)"

definition validate :: "string option \<Rightarrow> bool" where
  "validate raw_env = (\<not> key_rejected (clean_key raw_env))"

subsection \<open>Values, requests, responses, exceptions\<close>

text \<open>
  The Python values that \<^verbatim>\<open>json.loads\<close> produces, which are also the values the
  functions below return: \<open>PNone\<close> is \<^verbatim>\<open>None\<close> (JSON \<^verbatim>\<open>null\<close>), a \<^verbatim>\<open>dict\<close> is an
  association list in insertion order, read with \<open>map_of\<close>. No function of the program
  looks into a number.
\<close>

datatype pyval =
    PNone
  | PBool bool
  | PInt int
  | PFloat rat
  | PStr string
  | PList "pyval list"
  | PDict "(string \<times> pyval) list"

datatype http_method = GET | PUT

record request =
  meth :: http_method
  url :: string
  kwargs :: "(string \<times> pyval) list"
  json_payload :: "pyval option"
  timeout :: nat

text \<open>
  A response as the program reads it: \<open>headers\<close> holds the header names in lower
  case (the library's header dictionary ignores case), \<open>body_text\<close> is \<^verbatim>\<open>r.text\<close>, and
  \<open>json_body\<close> is what \<^verbatim>\<open>r.json()\<close> decodes, \<open>None\<close> when the body is not JSON and
  the call raises.
\<close>

record response =
  status_code :: nat
  headers :: "(string \<times> string) list"
  body_text :: string
  json_body :: "pyval option"

text \<open>
  The exceptions of the program. \<open>SystemExit\<close> is the only one that is not a Python
  \<^verbatim>\<open>Exception\<close>. \<open>RetryError\<close> is what the retry decorator raises when it gives up; it
  holds the exception of the last attempt.
\<close>

datatype exn =
    SystemExit string
  | GenericException string
  | HTTPError response
  | RequestException string
  | ValueError
  | JSONDecodeError
  | KeyError string
  | AttributeError
  | TypeError
  | RetryError exn

fun is_Exception :: "exn \<Rightarrow> bool" where
  "is_Exception (SystemExit m) = False"
| "is_Exception e = True"

text \<open>
  What the outside world does is a trace of events: a request sent, a \<^verbatim>\<open>time.sleep\<close>
  of so many seconds, a line printed. A session answers a request from the trace so
  far: with a response, or with a transport failure (connection error, timeout).
\<close>

datatype printed =
    FetchedOrgs nat
  | Names "pyval list"

datatype event =
    Sent request
  | Slept nat
  | Printed printed

type_synonym world = "event list"

datatype outcome = Returned response | Failed string

type_synonym session = "world \<Rightarrow> request \<Rightarrow> outcome"

type_synonym 'a io = "world \<Rightarrow> (exn + 'a) \<times> world"

text \<open>
  \<^verbatim>\<open>s.get(url, timeout=20, **kwargs)\<close> and \<^verbatim>\<open>s.put(url, json=payload, timeout=20)\<close>
  as requests, and the sending of one: the request is recorded, and a transport failure
  is raised as the library's \<^verbatim>\<open>RequestException\<close>.
\<close>

definition get_request :: "string \<Rightarrow> (string \<times> pyval) list \<Rightarrow> request" where
  "get_request u kw = \<lparr>meth = GET, url = u, kwargs = kw, json_payload = None, timeout = 20\<rparr>"

definition put_request :: "string \<Rightarrow> pyval \<Rightarrow> request" where
  "put_request u payload =
     \<lparr>meth = PUT, url = u, kwargs = [], json_payload = Some payload, timeout = 20\<rparr>"

definition send :: "session \<Rightarrow> request \<Rightarrow> response io" where
  "send s rq w =
     (case s w rq of
        Returned r \<Rightarrow> (Inr r, w @ [Sent rq])
      | Failed m \<Rightarrow> (Inl (RequestException m), w @ [Sent rq]))"

subsection \<open>Rate-limit sleep\<close>

text \<open>
  \<^verbatim>\<open>int(s)\<close> on a string, base 10: surrounding whitespace is dropped, one sign is
  allowed, then digits, with single underscores allowed between digits. \<open>None\<close> is the
  \<^verbatim>\<open>ValueError\<close>.
\<close>

definition is_digit :: "char \<Rightarrow> bool" where
  "is_digit c = (let n = (of_char c :: nat) in 48 \<le> n \<and> n \<le> 57)"

fun digits_ok :: "string \<Rightarrow> bool" where
  "digits_ok [] = False"
| "digits_ok [c] = is_digit c"
| "digits_ok (c # d # r) =
     (is_digit c \<and> (if d = CHR ''_'' then digits_ok r else digits_ok (d # r)))"

definition digits_val :: "string \<Rightarrow> nat" where
  "digits_val s = foldl (\<lambda>a c. 10 * a + (of_char c - 48)) 0 (filter is_digit s)"

definition py_int :: "string \<Rightarrow> int option" where
  "py_int s =
     (let t = strip is_space s;
          neg = (t \<noteq> [] \<and> hd t = CHR ''-'');
          body = (if t \<noteq> [] \<and> (hd t = CHR ''-'' \<or> hd t = CHR ''+'') then tl t else t)
      in if digits_ok body
         then Some (if neg then - int (digits_val body) else int (digits_val body))
         else None)"

text \<open>
  \<^verbatim>\<open>
  def rate_limit_sleep(resp):
      if resp.status_code == 429:
          retry_after = int(resp.headers.get("Retry-After", "1"))
          time.sleep(retry_after)
  \<close>
  \<^verbatim>\<open>time.sleep\<close> raises \<^verbatim>\<open>ValueError\<close> on a negative length.
\<close>

definition rate_limit_sleep :: "response \<Rightarrow> unit io" where
  "rate_limit_sleep resp w =
     (if status_code resp = 429 then
        (case py_int (case map_of (headers resp) ''retry-after'' of None \<Rightarrow> ''1'' | Some v \<Rightarrow> v) of
           None \<Rightarrow> (Inl ValueError, w)
         | Some retry_after \<Rightarrow>
             if retry_after < 0 then (Inl ValueError, w)
             else (Inr (), w @ [Slept (nat retry_after)]))
      else (Inr (), w))"

subsection \<open>Retrying Request Executor\<close>

text \<open>\<^verbatim>\<open>r.raise_for_status()\<close>: an \<^verbatim>\<open>HTTPError\<close> for a status from 400 to 599.\<close>

definition raise_for_status :: "response \<Rightarrow> exn + unit" where
  "raise_for_status r =
     (if 400 \<le> status_code r \<and> status_code r < 600 then Inl (HTTPError r) else Inr ())"

definition unauthorized_guidance :: string where
  "unauthorized_guidance =
     ''401 Unauthorized from Meraki API.'' @ [newline] @
     ''Checklist:'' @ [newline] @
     '' - Org > Settings > Enable Dashboard API access'' @ [newline] @
     '' - API key user has org access'' @ [newline] @
     '' - If API IP allow list is on, your public IP is whitelisted'' @ [newline] @
     '' - If unsure, regenerate key and update .env'' @ [newline] @
     ''Response body: ''"

text \<open>
  The body of \<^verbatim>\<open>_get\<close>, one attempt:
  \<^verbatim>\<open>
  r = s.get(url, timeout=20, **kwargs)
  if r.status_code == 401: raise SystemExit(... f"Response body: {r.text[:400]}")
  if r.status_code == 429:
      rate_limit_sleep(r)
      raise Exception("429 rate limited")
  r.raise_for_status()
  return r.json()
  \<close>
  The keywords in \<^verbatim>\<open>kwargs\<close> go to the library's request: one that it does not take,
  or a second \<^verbatim>\<open>timeout\<close>, is a \<^verbatim>\<open>TypeError\<close> of the call, before anything is sent.
\<close>

definition accepted_kwargs :: "string list" where
  "accepted_kwargs =
     [''params'', ''data'', ''headers'', ''cookies'', ''files'', ''auth'', ''allow_redirects'',
      ''proxies'', ''hooks'', ''stream'', ''verify'', ''cert'', ''json'']"

definition kwargs_ok :: "(string \<times> pyval) list \<Rightarrow> bool" where
  "kwargs_ok kw = list_all (\<lambda>k. k \<in> set accepted_kwargs) (map fst kw)"

definition get_body :: "session \<Rightarrow> string \<Rightarrow> (string \<times> pyval) list \<Rightarrow> pyval io" where
  "get_body s u kw w =
     (if \<not> kwargs_ok kw then (Inl TypeError, w)
      else
        (case send s (get_request u kw) w of
           (Inl e, w1) \<Rightarrow> (Inl e, w1)
         | (Inr r, w1) \<Rightarrow>
             if status_code r = 401 then
               (Inl (SystemExit (unauthorized_guidance @ take 400 (body_text r))), w1)
             else if status_code r = 429 then
               (case rate_limit_sleep r w1 of
                  (Inl e, w2) \<Rightarrow> (Inl e, w2)
                | (Inr _, w2) \<Rightarrow> (Inl (GenericException ''429 rate limited''), w2))
             else
               (case raise_for_status r of
                  Inl e \<Rightarrow> (Inl e, w1)
                | Inr _ \<Rightarrow>
                    (case json_body r of
                       None \<Rightarrow> (Inl JSONDecodeError, w1)
                     | Some v \<Rightarrow> (Inr v, w1)))))"

text \<open>
  The body of \<^verbatim>\<open>_put\<close>, one attempt:
  \<^verbatim>\<open>
  r = s.put(url, json=payload, timeout=20)
  if r.status_code == 429:
      rate_limit_sleep(r)
      raise Exception("429")
  r.raise_for_status()
  return r.json()
  \<close>
\<close>

definition put_body :: "session \<Rightarrow> string \<Rightarrow> pyval \<Rightarrow> pyval io" where
  "put_body s u payload w =
     (case send s (put_request u payload) w of
        (Inl e, w1) \<Rightarrow> (Inl e, w1)
      | (Inr r, w1) \<Rightarrow>
          if status_code r = 429 then
            (case rate_limit_sleep r w1 of
               (Inl e, w2) \<Rightarrow> (Inl e, w2)
             | (Inr _, w2) \<Rightarrow> (Inl (GenericException ''429''), w2))
          else
            (case raise_for_status r of
               Inl e \<Rightarrow> (Inl e, w1)
             | Inr _ \<Rightarrow>
                 (case json_body r of
                    None \<Rightarrow> (Inl JSONDecodeError, w1)
                  | Some v \<Rightarrow> (Inr v, w1))))"

text \<open>
  The decorator \<^verbatim>\<open>@retry(stop=stop_after_attempt(5), wait=wait_exponential(min=1, max=8))\<close>.
  After an attempt that raised: an exception that is not an \<^verbatim>\<open>Exception\<close> is raised
  again as it is; otherwise, when the attempt number has reached 5, a \<^verbatim>\<open>RetryError\<close>
  holding the attempt is raised (the decorator is not given \<^verbatim>\<open>reraise=True\<close>);
  otherwise the decorator sleeps \<open>wait_exponential\<close> of the attempt number and calls the
  function again. Attempts are numbered from 1, and the wait after attempt \<open>n\<close> is
  \<^verbatim>\<open>max(max(0, min), min(multiplier * 2 ** (n - 1), max))\<close> with the multiplier 1: 1, 2,
  4, 8 seconds.
\<close>

definition wait_exponential :: "nat \<Rightarrow> nat" where
  "wait_exponential attempt_number = max (max 0 1) (min (1 * 2 ^ (attempt_number - 1)) 8)"

function retrying :: "pyval io \<Rightarrow> nat \<Rightarrow> pyval io" where
  "retrying f attempt_number w =
     (case f w of
        (Inr v, w1) \<Rightarrow> (Inr v, w1)
      | (Inl e, w1) \<Rightarrow>
          if \<not> is_Exception e then (Inl e, w1)
          else if attempt_number \<ge> 5 then (Inl (RetryError e), w1)
          else retrying f (Suc attempt_number) (w1 @ [Slept (wait_exponential attempt_number)]))"
  by pat_completeness auto
termination
  by (relation "measure (\<lambda>(f, n, w). 5 - n)") auto

declare retrying.simps [simp del]

definition get :: "session \<Rightarrow> string \<Rightarrow> (string \<times> pyval) list \<Rightarrow> pyval io" where
  "get s u kw = retrying (get_body s u kw) 1"

definition put :: "session \<Rightarrow> string \<Rightarrow> pyval \<Rightarrow> pyval io" where
  "put s u payload = retrying (put_body s u payload) 1"

subsection \<open>Resource Resolver\<close>

definition BASE :: string where
  "BASE = ''https://api.meraki.com/api/v1''"

text \<open>
  \<^verbatim>\<open>for o in data\<close>: a list gives its items, a dictionary its keys, a string its
  characters; anything else is not iterable.
\<close>

definition py_iter :: "pyval \<Rightarrow> exn + pyval list" where
  "py_iter v =
     (case v of
        PList xs \<Rightarrow> Inr xs
      | PDict kvs \<Rightarrow> Inr (map (\<lambda>kv. PStr (fst kv)) kvs)
      | PStr cs \<Rightarrow> Inr (map (\<lambda>c. PStr [c]) cs)
      | _ \<Rightarrow> Inl TypeError)"

text \<open>\<^verbatim>\<open>o.get(key)\<close>: only a dictionary has \<^verbatim>\<open>get\<close>; a missing key gives \<^verbatim>\<open>None\<close>.\<close>

definition py_get :: "pyval \<Rightarrow> string \<Rightarrow> exn + pyval" where
  "py_get item k =
     (case item of
        PDict kvs \<Rightarrow> (case map_of kvs k of None \<Rightarrow> Inr PNone | Some v \<Rightarrow> Inr v)
      | _ \<Rightarrow> Inl AttributeError)"

text \<open>\<^verbatim>\<open>o[key]\<close> on an item that has passed \<^verbatim>\<open>o.get\<close>: a missing key raises.\<close>

definition py_item :: "pyval \<Rightarrow> string \<Rightarrow> exn + pyval" where
  "py_item item k =
     (case item of
        PDict kvs \<Rightarrow> (case map_of kvs k of None \<Rightarrow> Inl (KeyError k) | Some v \<Rightarrow> Inr v)
      | _ \<Rightarrow> Inl TypeError)"

text \<open>
  The loop that both resolvers run over the items:
  \<^verbatim>\<open>
  for o in orgs:
      if o.get("name") == name:
          return o["id"]
  return None
  \<close>
\<close>

fun scan_by_name :: "pyval list \<Rightarrow> string \<Rightarrow> exn + pyval" where
  "scan_by_name [] name = Inr PNone"
| "scan_by_name (item # rest) name =
     (case py_get item ''name'' of
        Inl e \<Rightarrow> Inl e
      | Inr n \<Rightarrow> if n = PStr name then py_item item ''id'' else scan_by_name rest name)"

definition find_org_id_by_name :: "session \<Rightarrow> string \<Rightarrow> pyval io" where
  "find_org_id_by_name s name w =
     (case get s (BASE @ ''/organizations'') [] w of
        (Inl e, w1) \<Rightarrow> (Inl e, w1)
      | (Inr orgs, w1) \<Rightarrow>
          (case py_iter orgs of
             Inl e \<Rightarrow> (Inl e, w1)
           | Inr items \<Rightarrow> (scan_by_name items name, w1)))"

definition find_network_id :: "session \<Rightarrow> string \<Rightarrow> string \<Rightarrow> pyval io" where
  "find_network_id s org_id net_name w =
     (case get s (BASE @ ''/organizations/'' @ org_id @ ''/networks'') [] w of
        (Inl e, w1) \<Rightarrow> (Inl e, w1)
      | (Inr nets, w1) \<Rightarrow>
          (case py_iter nets of
             Inl e \<Rightarrow> (Inl e, w1)
           | Inr items \<Rightarrow> (scan_by_name items net_name, w1)))"

subsection \<open>Sanity check\<close>

text \<open>\<^verbatim>\<open>len(data)\<close>: defined on lists, dictionaries and strings.\<close>

definition py_len :: "pyval \<Rightarrow> exn + nat" where
  "py_len v =
     (case v of
        PList xs \<Rightarrow> Inr (length xs)
      | PDict kvs \<Rightarrow> Inr (length kvs)
      | PStr cs \<Rightarrow> Inr (length cs)
      | _ \<Rightarrow> Inl TypeError)"

text \<open>\<^verbatim>\<open>[o.get("name") for o in data]\<close>, stopping at the first item that raises.\<close>

fun names_of :: "pyval list \<Rightarrow> exn + pyval list" where
  "names_of [] = Inr []"
| "names_of (item # rest) =
     (case py_get item ''name'' of
        Inl e \<Rightarrow> Inl e
      | Inr n \<Rightarrow> (case names_of rest of Inl e \<Rightarrow> Inl e | Inr ns \<Rightarrow> Inr (n # ns)))"

text \<open>
  \<^verbatim>\<open>
  def sanity_list_orgs(s):
      data = _get(s, f"{BASE}/organizations")
      print(f"... Sanity: fetched {len(data)} orgs")
      print([o.get("name") for o in data][:5])
  \<close>
  The function has no \<^verbatim>\<open>return\<close>: its value is \<^verbatim>\<open>None\<close>. The two lines printed are
  recorded by what they show, the count and the names.
\<close>

definition sanity_list_orgs :: "session \<Rightarrow> pyval io" where
  "sanity_list_orgs s w =
     (case get s (BASE @ ''/organizations'') [] w of
        (Inl e, w1) \<Rightarrow> (Inl e, w1)
      | (Inr data, w1) \<Rightarrow>
          (case py_len data of
             Inl e \<Rightarrow> (Inl e, w1)
           | Inr n \<Rightarrow>
               (case py_iter data of
                  Inl e \<Rightarrow> (Inl e, w1 @ [Printed (FetchedOrgs n)])
                | Inr items \<Rightarrow>
                    (case names_of items of
                       Inl e \<Rightarrow> (Inl e, w1 @ [Printed (FetchedOrgs n)])
                     | Inr ns \<Rightarrow>
                         (Inr PNone,
                          w1 @ [Printed (FetchedOrgs n), Printed (Names (take 5 ns))])))))"

subsection \<open>Notions of the specification\<close>

text \<open>
  A string that is empty or neither begins nor ends with a character of \<open>p\<close>: what is
  left of a credential once every layer around it is gone.
\<close>

definition edges_ok :: "(char \<Rightarrow> bool) \<Rightarrow> string \<Rightarrow> bool" where
  "edges_ok p s = (s = [] \<or> (\<not> p (hd s) \<and> \<not> p (last s)))"

text \<open>
  The layers around a core as the three strips of \<open>clean_key\<close> take them off, one
  after the other: whitespace outermost, double quotes inside it, single quotes inside
  those. Each strip stops at the first character from either end that is not its own,
  so what is under the whitespace neither begins nor ends with whitespace, what is
  under the double quotes neither begins nor ends with a double quote, and the core
  neither begins nor ends with a single quote; the core may still begin or end with
  whitespace or a double quote that an earlier strip could not reach.
\<close>

definition layered :: "string \<Rightarrow> string \<Rightarrow> string \<Rightarrow> string \<Rightarrow> string \<Rightarrow> string \<Rightarrow> string \<Rightarrow> bool" where
  "layered ws1 d1 q1 core q2 d2 ws2 =
     (list_all is_space (ws1 @ ws2)
      \<and> list_all (\<lambda>c. c = dquote) (d1 @ d2)
      \<and> list_all (\<lambda>c. c = squote) (q1 @ q2)
      \<and> edges_ok is_space (d1 @ q1 @ core @ q2 @ d2)
      \<and> edges_ok (\<lambda>c. c = dquote) (q1 @ core @ q2)
      \<and> edges_ok (\<lambda>c. c = squote) core)"

text \<open>
  An entity of a returned list is a dictionary; it matches a target when its name field
  is that very string. Resolving by the specification's words: the id of the first entry
  that matches, and \<^verbatim>\<open>None\<close> (not found) when there is none.
\<close>

definition is_dict :: "pyval \<Rightarrow> bool" where
  "is_dict item = (case item of PDict kvs \<Rightarrow> True | _ \<Rightarrow> False)"

definition field :: "string \<Rightarrow> pyval \<Rightarrow> pyval option" where
  "field k item = (case item of PDict kvs \<Rightarrow> map_of kvs k | _ \<Rightarrow> None)"

definition is_entity :: "pyval \<Rightarrow> bool" where
  "is_entity item = (is_dict item \<and> field ''id'' item \<noteq> None)"

definition name_matches :: "string \<Rightarrow> pyval \<Rightarrow> bool" where
  "name_matches name item = (field ''name'' item = Some (PStr name))"

definition spec_find_id :: "pyval list \<Rightarrow> string \<Rightarrow> pyval" where
  "spec_find_id items name =
     (case List.find (name_matches name) items of
        None \<Rightarrow> PNone
      | Some item \<Rightarrow> (case field ''id'' item of None \<Rightarrow> PNone | Some v \<Rightarrow> v))"

text \<open>The name an item shows in the printed list: its name field, or \<^verbatim>\<open>None\<close>.\<close>

definition shown_name :: "pyval \<Rightarrow> pyval" where
  "shown_name item = (case field ''name'' item of None \<Rightarrow> PNone | Some v \<Rightarrow> v)"

text \<open>The requests among the events of a trace.\<close>

fun sent_requests :: "world \<Rightarrow> request list" where
  "sent_requests [] = []"
| "sent_requests (Sent rq # evs) = rq # sent_requests evs"
| "sent_requests (ev # evs) = sent_requests evs"

subsection \<open>Sessions and responses used as concrete inputs\<close>

definition plain_response :: "nat \<Rightarrow> string \<Rightarrow> pyval option \<Rightarrow> response" where
  "plain_response code body js =
     \<lparr>status_code = code, headers = [], body_text = body, json_body = js\<rparr>"

definition rate_limited :: "string \<Rightarrow> response" where
  "rate_limited retry_after =
     \<lparr>status_code = 429, headers = [(''retry-after'', retry_after)],
      body_text = [], json_body = None\<rparr>"

definition always :: "response \<Rightarrow> session" where
  "always r w rq = Returned r"

definition first_then :: "response \<Rightarrow> response \<Rightarrow> session" where
  "first_then r1 r2 w rq = (case w of [] \<Rightarrow> Returned r1 | ev # evs \<Rightarrow> Returned r2)"

definition two_orgs :: pyval where
  "two_orgs =
     PList [PDict [(''id'', PStr ''1''), (''name'', PStr ''A'')],
            PDict [(''id'', PStr ''2''), (''name'', PStr ''B'')]]"

section \<open>Properties\<close>

subsection \<open>Stripping\<close>

lemma dropWhile_all: "(\<And>c. c \<in> set a \<Longrightarrow> p c) \<Longrightarrow> dropWhile p (a @ b) = dropWhile p b"
  by (rule dropWhile_append2) auto

lemma strip_sandwich:
  assumes a: "\<forall>c\<in>set a. p c" and b: "\<forall>c\<in>set b. p c" and m: "edges_ok p mid"
  shows "strip p (a @ mid @ b) = mid"
proof (cases "mid = []")
  case True
  have "lstrip p (a @ b) = []"
    unfolding lstrip_def using a b by (auto simp: dropWhile_eq_Nil_conv)
  then have "strip p (a @ b) = []"
    unfolding strip_def by (simp add: rstrip_def)
  with True show ?thesis by simp
next
  case False
  with m have h: "\<not> p (hd mid)" and l: "\<not> p (last mid)" by (auto simp: edges_ok_def)
  from False h have d1: "dropWhile p mid = mid" by (cases mid) auto
  have "dropWhile p (a @ mid @ b) = dropWhile p (mid @ b)" using a by (simp add: dropWhile_all)
  also have "\<dots> = mid @ b" using False h by (cases mid) auto
  finally have l1: "lstrip p (a @ mid @ b) = mid @ b" by (simp add: lstrip_def)
  have "dropWhile p (rev (mid @ b)) = dropWhile p (rev b @ rev mid)" by simp
  also have "\<dots> = dropWhile p (rev mid)" using b by (intro dropWhile_all) simp
  also have "\<dots> = rev mid" using False l by (cases "rev mid") (auto simp: last_rev hd_rev)
  finally show ?thesis using l1 by (simp add: strip_def rstrip_def)
qed

lemma edges_ok_wrap:
  assumes "\<not> p c" "edges_ok p core"
  shows "edges_ok p (replicate j c @ core @ replicate k c)"
  using assms
  by (cases j; cases k; cases "core = []")
     (auto simp: edges_ok_def hd_append last_append)

lemma clean_key_layers:
  assumes "\<forall>c\<in>set ws1. is_space c" "\<forall>c\<in>set ws2. is_space c"
    and "edges_ok (\<lambda>c. is_space c \<or> c = dquote \<or> c = squote) core"
  shows "clean_key (Some (ws1 @ replicate m dquote @ replicate j squote @ core @
            replicate k squote @ replicate n dquote @ ws2)) = core"
proof -
  let ?inner = "replicate j squote @ core @ replicate k squote"
  let ?mid = "replicate m dquote @ ?inner @ replicate n dquote"
  have c1: "edges_ok (\<lambda>c. c = squote) core" and c2: "edges_ok (\<lambda>c. c = dquote) core"
    and c3: "edges_ok is_space core"
    using assms(3) by (auto simp: edges_ok_def)
  have sq: "\<not> is_space squote" and dq: "\<not> is_space dquote"
    by (simp_all add: is_space_def)
  have e2: "edges_ok (\<lambda>c. c = dquote) ?inner"
    using edges_ok_wrap [of "\<lambda>c. c = dquote" squote core j k] c2 by simp
  have e3: "edges_ok is_space ?inner"
    using edges_ok_wrap [of is_space squote core j k] c3 sq by simp
  have e4: "edges_ok is_space ?mid"
    using edges_ok_wrap [of is_space dquote ?inner m n] e3 dq by simp
  have s1: "strip is_space (ws1 @ ?mid @ ws2) = ?mid"
    using assms(1,2) e4 by (rule strip_sandwich)
  have s2: "strip (\<lambda>c. c = dquote) ?mid = ?inner"
    using strip_sandwich [of "replicate m dquote" "\<lambda>c. c = dquote" "replicate n dquote" ?inner] e2
    by simp
  have s3: "strip (\<lambda>c. c = squote) ?inner = core"
    using strip_sandwich [of "replicate j squote" "\<lambda>c. c = squote" "replicate k squote" core] c1
    by simp
  show ?thesis
    using s1 s2 s3 by (simp add: clean_key_def)
qed

lemma strip_decompose:
  "\<exists>a b. s = a @ strip p s @ b \<and> list_all p a \<and> list_all p b \<and> edges_ok p (strip p s)"
proof -
  let ?a = "takeWhile p s"
  let ?t = "dropWhile p s"
  let ?m = "rev (dropWhile p (rev ?t))"
  let ?b = "rev (takeWhile p (rev ?t))"
  have m: "strip p s = ?m" by (simp add: strip_def lstrip_def rstrip_def)
  have "?m @ ?b = rev (takeWhile p (rev ?t) @ dropWhile p (rev ?t))"
    by (simp only: rev_append)
  also have "\<dots> = rev (rev ?t)" by (simp only: takeWhile_dropWhile_id)
  also have "\<dots> = ?t" by (simp only: rev_rev_ident)
  finally have t: "?t = ?m @ ?b" by (rule sym)
  have "?a @ ?m @ ?b = ?a @ ?t" by (simp only: t [symmetric])
  also have "\<dots> = s" by (rule takeWhile_dropWhile_id)
  finally have s: "s = ?a @ ?m @ ?b" by (rule sym)
  have a: "list_all p ?a" by (auto simp: list_all_iff dest: set_takeWhileD)
  have b: "list_all p ?b" by (auto simp: list_all_iff dest: set_takeWhileD)
  have e: "edges_ok p ?m"
  proof (cases "?m = []")
    case True
    then show ?thesis by (simp add: edges_ok_def)
  next
    case False
    then have ne: "dropWhile p (rev ?t) \<noteq> []" by simp
    then have "\<not> p (hd (dropWhile p (rev ?t)))" by (rule hd_dropWhile)
    then have l: "\<not> p (last ?m)" using ne by (simp add: last_rev)
    from False t have tne: "?t \<noteq> []" by (metis append_is_Nil_conv)
    then have "\<not> p (hd ?t)" by (rule hd_dropWhile)
    moreover have "hd (?m @ ?b) = hd ?m" using False by (rule hd_append2)
    then have "hd ?t = hd ?m" by (simp only: t [symmetric])
    ultimately have h: "\<not> p (hd ?m)" by simp
    from h l show ?thesis by (simp add: edges_ok_def)
  qed
  from s a b e m show ?thesis by metis
qed

lemma clean_key_sandwich:
  assumes "layered ws1 d1 q1 core q2 d2 ws2"
  shows "clean_key (Some (ws1 @ d1 @ q1 @ core @ q2 @ d2 @ ws2)) = core"
proof -
  let ?t2 = "q1 @ core @ q2"
  let ?t1 = "d1 @ ?t2 @ d2"
  from assms have w: "\<forall>c\<in>set ws1. is_space c" "\<forall>c\<in>set ws2. is_space c"
    and d: "\<forall>c\<in>set d1. c = dquote" "\<forall>c\<in>set d2. c = dquote"
    and q: "\<forall>c\<in>set q1. c = squote" "\<forall>c\<in>set q2. c = squote"
    and e1: "edges_ok is_space ?t1"
    and e2: "edges_ok (\<lambda>c. c = dquote) ?t2"
    and e3: "edges_ok (\<lambda>c. c = squote) core"
    by (simp_all add: layered_def list_all_iff)
  have s1: "strip is_space (ws1 @ ?t1 @ ws2) = ?t1"
    using w e1 by (rule strip_sandwich)
  have s2: "strip (\<lambda>c. c = dquote) (d1 @ ?t2 @ d2) = ?t2"
    using d e2 by (rule strip_sandwich)
  have s3: "strip (\<lambda>c. c = squote) (q1 @ core @ q2) = core"
    using q e3 by (rule strip_sandwich)
  have "clean_key (Some (ws1 @ ?t1 @ ws2)) = core"
    unfolding clean_key_def option.case s1 s2 s3 ..
  then show ?thesis by simp
qed

lemma clean_key_decompose:
  "\<exists>ws1 d1 q1 q2 d2 ws2. layered ws1 d1 q1 (clean_key (Some s)) q2 d2 ws2
      \<and> s = ws1 @ d1 @ q1 @ clean_key (Some s) @ q2 @ d2 @ ws2"
proof -
  let ?t1 = "strip is_space s"
  let ?t2 = "strip (\<lambda>c. c = dquote) ?t1"
  let ?c = "strip (\<lambda>c. c = squote) ?t2"
  have c: "clean_key (Some s) = ?c" by (simp add: clean_key_def)
  obtain ws1 ws2 where 1: "s = ws1 @ ?t1 @ ws2" "list_all is_space ws1" "list_all is_space ws2"
      "edges_ok is_space ?t1"
    using strip_decompose [of s is_space] by blast
  obtain d1 d2 where 2: "?t1 = d1 @ ?t2 @ d2" "list_all (\<lambda>c. c = dquote) d1"
      "list_all (\<lambda>c. c = dquote) d2" "edges_ok (\<lambda>c. c = dquote) ?t2"
    using strip_decompose [of ?t1 "\<lambda>c. c = dquote"] by blast
  obtain q1 q2 where 3: "?t2 = q1 @ ?c @ q2" "list_all (\<lambda>c. c = squote) q1"
      "list_all (\<lambda>c. c = squote) q2" "edges_ok (\<lambda>c. c = squote) ?c"
    using strip_decompose [of ?t2 "\<lambda>c. c = squote"] by blast
  have t2: "q1 @ ?c @ q2 = ?t2" by (rule 3(1) [symmetric])
  have "d1 @ q1 @ ?c @ q2 @ d2 = d1 @ (q1 @ ?c @ q2) @ d2" by simp
  also have "\<dots> = d1 @ ?t2 @ d2" by (simp only: t2)
  also have "\<dots> = ?t1" by (rule 2(1) [symmetric])
  finally have t1: "d1 @ q1 @ ?c @ q2 @ d2 = ?t1" .
  have "ws1 @ d1 @ q1 @ ?c @ q2 @ d2 @ ws2 = ws1 @ (d1 @ q1 @ ?c @ q2 @ d2) @ ws2" by simp
  also have "\<dots> = ws1 @ ?t1 @ ws2" by (simp only: t1)
  also have "\<dots> = s" by (rule 1(1) [symmetric])
  finally have s: "s = ws1 @ d1 @ q1 @ ?c @ q2 @ d2 @ ws2" by (rule sym)
  have "layered ws1 d1 q1 ?c q2 d2 ws2"
    unfolding layered_def t1 t2 using 1(2-4) 2(2-4) 3(2-4) by simp
  with s c show ?thesis by metis
qed

lemma length_strip_le: "length (strip p s) \<le> length s"
proof -
  have "length (rev (dropWhile p (rev (dropWhile p s)))) \<le> length (dropWhile p s)"
    using length_dropWhile_le [of p "rev (dropWhile p s)"] by simp
  also have "\<dots> \<le> length s" by (rule length_dropWhile_le)
  finally show ?thesis by (simp add: strip_def lstrip_def rstrip_def)
qed

lemma length_clean_key_le: "length (clean_key (Some s)) \<le> length (strip is_space s)"
  unfolding clean_key_def
  using length_strip_le [of "\<lambda>c. c = squote" "strip (\<lambda>c. c = dquote) (strip is_space s)"]
        length_strip_le [of "\<lambda>c. c = dquote" "strip is_space s"]
  by simp

subsection \<open>Credential Normalizer\<close>

text \<open>
  Claim C6, as the code has it. A credential of more than six characters is masked to a
  string of the same length that keeps its first three and its last three characters
  and has the mask character at every position between them. A credential of six
  characters or fewer is masked whole: the result is the mask character, as many times
  as the credential is long. (So the bound of the claim, six or more, is one too low.)
\<close>

theorem mask_key_long:
  "(6 < length k \<longrightarrow>
      length (mask_key k) = length k
      \<and> take 3 (mask_key k) = take 3 k
      \<and> drop (length k - 3) (mask_key k) = drop (length k - 3) k
      \<and> (\<forall>i. 3 \<le> i \<and> i < length k - 3 \<longrightarrow> mask_key k ! i = star))
   \<and> (length k \<le> 6 \<longrightarrow> mask_key k = replicate (length k) star)"
proof -
  have short: "length k \<le> 6 \<longrightarrow> mask_key k = replicate (length k) star"
    by (simp add: mask_key_def)
  have long: "6 < length k \<longrightarrow>
      length (mask_key k) = length k
      \<and> take 3 (mask_key k) = take 3 k
      \<and> drop (length k - 3) (mask_key k) = drop (length k - 3) k
      \<and> (\<forall>i. 3 \<le> i \<and> i < length k - 3 \<longrightarrow> mask_key k ! i = star)"
  proof
    assume six: "6 < length k"
    then have ne: "k \<noteq> []" by auto
    have m: "mask_key k = take 3 k @ replicate (length k - 6) star @ drop (length k - 3) k"
      using six ne by (simp add: mask_key_def)
    have l3: "length (take 3 k) = 3" using six by simp
    have len: "length (mask_key k) = length k"
      using six by (simp add: m)
    have t: "take 3 (mask_key k) = take 3 k"
      using l3 by (simp add: m)
    have d: "drop (length k - 3) (mask_key k) = drop (length k - 3) k"
      using six by (simp add: m)
    have s: "mask_key k ! i = star" if "3 \<le> i" "i < length k - 3" for i
    proof -
      have "mask_key k ! i = (replicate (length k - 6) star @ drop (length k - 3) k) ! (i - 3)"
        using that l3 by (simp add: m nth_append)
      also have "\<dots> = star"
      proof -
        from that have "i - 3 < length k - 6" by arith
        then show ?thesis by (simp add: nth_append)
      qed
      finally show ?thesis .
    qed
    from len t d s show "length (mask_key k) = length k
      \<and> take 3 (mask_key k) = take 3 k
      \<and> drop (length k - 3) (mask_key k) = drop (length k - 3) k
      \<and> (\<forall>i. 3 \<le> i \<and> i < length k - 3 \<longrightarrow> mask_key k ! i = star)" by blast
  qed
  from long short show ?thesis by blast
qed

theorem mask_key_long_witness:
  "6 < length ''abcdefgh''
   \<and> mask_key ''abcdefgh'' = ''abc**fgh''
   \<and> length (mask_key ''abcdefgh'') = length ''abcdefgh''
   \<and> take 3 (mask_key ''abcdefgh'') = ''abc''
   \<and> drop (length ''abcdefgh'' - 3) (mask_key ''abcdefgh'') = ''fgh''
   \<and> mask_key ''abcdefgh'' ! 3 = star \<and> mask_key ''abcdefgh'' ! 4 = star
   \<and> length ''Abc123'' \<le> 6 \<and> mask_key ''Abc123'' = ''******''
   \<and> length ''ab'' \<le> 6 \<and> mask_key ''ab'' = ''**''"
proof -
  have h: "6 < length ''abcdefgh''" by simp
  have v: "mask_key ''abcdefgh'' = ''abc**fgh''" by (simp add: mask_key_def)
  from h mask_key_long [of "''abcdefgh''"] have
    "length (mask_key ''abcdefgh'') = length ''abcdefgh''"
    "take 3 (mask_key ''abcdefgh'') = take 3 ''abcdefgh''"
    "drop (length ''abcdefgh'' - 3) (mask_key ''abcdefgh'') = drop (length ''abcdefgh'' - 3) ''abcdefgh''"
    "mask_key ''abcdefgh'' ! 3 = star" "mask_key ''abcdefgh'' ! 4 = star"
    by simp_all
  moreover from mask_key_long [of "''Abc123''"] have "mask_key ''Abc123'' = ''******''"
    by (simp add: eval_nat_numeral)
  moreover from mask_key_long [of "''ab''"] have "mask_key ''ab'' = ''**''"
    by (simp add: eval_nat_numeral)
  ultimately show ?thesis using h v by simp
qed

theorem mask_key_six_counterexample:
  "6 \<le> length ''abcdef''
   \<and> mask_key ''abcdef'' = ''******''
   \<and> take 3 (mask_key ''abcdef'') \<noteq> take 3 ''abcdef''
   \<and> drop (length ''abcdef'' - 3) (mask_key ''abcdef'') \<noteq> drop (length ''abcdef'' - 3) ''abcdef''"
  by (simp add: mask_key_def)

text \<open>
  Claim C7, as the code has it. \<open>clean_key\<close> gives the empty string for an absent
  value, and from a value it removes the whitespace at both ends, then every double
  quote at both ends, then every single quote at both ends, in this order and each
  once: on an input made of such layers around a core the result is the core, and every
  input is made so around its result. (Not one layer only: two layers of the same quote
  character are both removed. And nothing more than these three strips: whitespace
  inside the quotes stays, and so do double quotes inside single quotes.)
\<close>

theorem clean_key_strips_all_layers:
  "clean_key None = []
   \<and> (layered ws1 d1 q1 core q2 d2 ws2 \<longrightarrow>
        clean_key (Some (ws1 @ d1 @ q1 @ core @ q2 @ d2 @ ws2)) = core)
   \<and> (\<exists>ws1 d1 q1 q2 d2 ws2. layered ws1 d1 q1 (clean_key (Some s)) q2 d2 ws2
        \<and> s = ws1 @ d1 @ q1 @ clean_key (Some s) @ q2 @ d2 @ ws2)"
proof -
  have "clean_key None = []"
    by (simp add: clean_key_def strip_def lstrip_def rstrip_def)
  with clean_key_sandwich [of ws1 d1 q1 core q2 d2 ws2] clean_key_decompose [of s]
  show ?thesis by blast
qed

theorem clean_key_strips_all_layers_witness:
  "layered '' '' [] [squote] [dquote, CHR ''a'', dquote] [squote] [] [newline]
   \<and> clean_key (Some ('' '' @ [squote] @ [dquote, CHR ''a'', dquote] @ [squote] @ [newline]))
       = [dquote, CHR ''a'', dquote]
   \<and> layered [] [dquote] [] '' k '' [] [dquote] []
   \<and> clean_key (Some ([dquote] @ '' k '' @ [dquote])) = '' k ''
   \<and> layered '' '' [dquote, dquote] [squote] ''k-1'' [] [dquote, dquote, dquote] [newline]
   \<and> clean_key (Some ('' '' @ [dquote, dquote] @ [squote] @ ''k-1'' @ [dquote, dquote, dquote] @ [newline]))
       = ''k-1''
   \<and> clean_key None = []"
proof -
  have a: "layered '' '' [] [squote] [dquote, CHR ''a'', dquote] [squote] [] [newline]"
    by (simp add: layered_def edges_ok_def is_space_def)
  have b: "layered [] [dquote] [] '' k '' [] [dquote] []"
    by (simp add: layered_def edges_ok_def is_space_def)
  have c: "layered '' '' [dquote, dquote] [squote] ''k-1'' [] [dquote, dquote, dquote] [newline]"
    by (simp add: layered_def edges_ok_def is_space_def)
  from a clean_key_strips_all_layers [of "'' ''" "[]" "[squote]" "[dquote, CHR ''a'', dquote]" "[squote]" "[]" "[newline]"]
  have a': "clean_key (Some ('' '' @ [squote] @ [dquote, CHR ''a'', dquote] @ [squote] @ [newline]))
       = [dquote, CHR ''a'', dquote]" by simp
  from b clean_key_strips_all_layers [of "[]" "[dquote]" "[]" "'' k ''" "[]" "[dquote]" "[]"]
  have b': "clean_key (Some ([dquote] @ '' k '' @ [dquote])) = '' k ''" by simp
  from c clean_key_strips_all_layers [of "'' ''" "[dquote, dquote]" "[squote]" "''k-1''" "[]" "[dquote, dquote, dquote]" "[newline]"]
  have c': "clean_key (Some ('' '' @ [dquote, dquote] @ [squote] @ ''k-1'' @ [dquote, dquote, dquote] @ [newline]))
       = ''k-1''" by simp
  from clean_key_strips_all_layers [of "[]" "[]" "[]" "[]" "[]" "[]" "[]"] have n: "clean_key None = []" by blast
  from a a' b b' c c' n show ?thesis by blast
qed

theorem clean_key_two_layers_counterexample:
  "clean_key (Some ([dquote, dquote] @ ''abc'' @ [dquote, dquote])) = ''abc''
   \<and> clean_key (Some ([dquote, dquote] @ ''abc'' @ [dquote, dquote])) \<noteq> [dquote] @ ''abc'' @ [dquote]"
  by (simp add: clean_key_def strip_def lstrip_def rstrip_def is_space_def)

text \<open>
  Claim C8. The credential check rejects a raw value whenever the cleaned key is empty,
  or is a placeholder once lower-cased, or is shorter than 20 characters; and so it
  rejects every string that is shorter than 20 characters after trimming its
  whitespace.
\<close>

theorem validate_rejects:
  assumes "clean_key raw = []
         \<or> lower (clean_key raw) \<in> set placeholders
         \<or> length (clean_key raw) < 20
         \<or> (\<exists>s. raw = Some s \<and> length (strip is_space s) < 20)"
  shows "\<not> validate raw"
proof -
  have "key_rejected (clean_key raw)"
    using assms
  proof (elim disjE exE conjE)
    fix s assume "raw = Some s" "length (strip is_space s) < 20"
    with length_clean_key_le [of s] have "length (clean_key raw) < 20" by simp
    then show ?thesis by (simp add: key_rejected_def)
  qed (simp_all add: key_rejected_def)
  then show ?thesis by (simp add: validate_def)
qed

theorem validate_rejects_witness:
  "lower (clean_key (Some ''  PlaceHolder '')) \<in> set placeholders
   \<and> \<not> validate (Some ''  PlaceHolder '')
   \<and> length (clean_key (Some ''0123456789abcdefghi'')) < 20
   \<and> \<not> validate (Some ''0123456789abcdefghi'')
   \<and> clean_key None = [] \<and> \<not> validate None"
proof -
  have a: "lower (clean_key (Some ''  PlaceHolder '')) \<in> set placeholders" by code_simp
  have b: "length (clean_key (Some ''0123456789abcdefghi'')) < 20" by code_simp
  have c: "clean_key None = []" by code_simp
  from a validate_rejects [of "Some ''  PlaceHolder ''"]
  have a': "\<not> validate (Some ''  PlaceHolder '')" by blast
  from b validate_rejects [of "Some ''0123456789abcdefghi''"]
  have b': "\<not> validate (Some ''0123456789abcdefghi'')" by blast
  from c validate_rejects [of None]
  have c': "\<not> validate None" by blast
  from a a' b b' c c' show ?thesis by blast
qed

subsection \<open>The retry loop\<close>

text \<open>The four ways one round of the decorator ends, and five failures in a row.\<close>

lemma retrying_success:
  "f w = (Inr v, w1) \<Longrightarrow> retrying f n w = (Inr v, w1)"
  by (subst retrying.simps) simp

lemma retrying_fatal:
  "f w = (Inl e, w1) \<Longrightarrow> \<not> is_Exception e \<Longrightarrow> retrying f n w = (Inl e, w1)"
  by (subst retrying.simps) simp

lemma retrying_again:
  "f w = (Inl e, w1) \<Longrightarrow> is_Exception e \<Longrightarrow> n < 5 \<Longrightarrow>
   retrying f n w = retrying f (Suc n) (w1 @ [Slept (wait_exponential n)])"
  by (subst retrying.simps) simp

lemma retrying_give_up:
  "f w = (Inl e, w1) \<Longrightarrow> is_Exception e \<Longrightarrow> 5 \<le> n \<Longrightarrow>
   retrying f n w = (Inl (RetryError e), w1)"
  by (subst retrying.simps) simp

lemma retrying_five_failures:
  assumes "f w0 = (Inl e1, w1)" "is_Exception e1"
    and "f (w1 @ [Slept (wait_exponential 1)]) = (Inl e2, w2)" "is_Exception e2"
    and "f (w2 @ [Slept (wait_exponential 2)]) = (Inl e3, w3)" "is_Exception e3"
    and "f (w3 @ [Slept (wait_exponential 3)]) = (Inl e4, w4)" "is_Exception e4"
    and "f (w4 @ [Slept (wait_exponential 4)]) = (Inl e5, w5)" "is_Exception e5"
  shows "retrying f 1 w0 = (Inl (RetryError e5), w5)"
proof -
  have "retrying f 1 w0 = retrying f 2 (w1 @ [Slept (wait_exponential 1)])"
    using retrying_again [of f w0 e1 w1 1] assms(1,2) by (simp add: eval_nat_numeral)
  also have "\<dots> = retrying f 3 (w2 @ [Slept (wait_exponential 2)])"
    using retrying_again [of f "w1 @ [Slept (wait_exponential 1)]" e2 w2 2] assms(3,4) by (simp add: eval_nat_numeral)
  also have "\<dots> = retrying f 4 (w3 @ [Slept (wait_exponential 3)])"
    using retrying_again [of f "w2 @ [Slept (wait_exponential 2)]" e3 w3 3] assms(5,6) by (simp add: eval_nat_numeral)
  also have "\<dots> = retrying f 5 (w4 @ [Slept (wait_exponential 4)])"
    using retrying_again [of f "w3 @ [Slept (wait_exponential 3)]" e4 w4 4] assms(7,8) by (simp add: eval_nat_numeral)
  also have "\<dots> = (Inl (RetryError e5), w5)"
    using retrying_give_up [of f "w4 @ [Slept (wait_exponential 4)]" e5 w5 5] assms(9,10) by (simp add: eval_nat_numeral)
  finally show ?thesis .
qed

lemma kwargs_ok_Nil: "kwargs_ok []"
  by (simp add: kwargs_ok_def)

lemma get_body_unauthorized:
  assumes "kwargs_ok kw" and "s w (get_request u kw) = Returned r" and "status_code r = 401"
  shows "get_body s u kw w =
    (Inl (SystemExit (unauthorized_guidance @ take 400 (body_text r))), w @ [Sent (get_request u kw)])"
  using assms by (simp add: get_body_def send_def)

lemmas eval_defs =
  get_def put_def retrying.simps get_body_def put_body_def send_def always_def first_then_def
  plain_response_def rate_limited_def raise_for_status_def rate_limit_sleep_def
  wait_exponential_def get_request_def put_request_def kwargs_ok_def

lemma get_two_orgs:
  "get (always (plain_response 200 [] (Some v))) u [] [] = (Inr v, [Sent (get_request u [])])"
  by (simp add: eval_defs)

subsection \<open>The trace of a retried request\<close>

lemma sent_requests_append:
  "sent_requests (a @ b) = sent_requests a @ sent_requests b"
  by (induction a rule: sent_requests.induct) simp_all

lemma get_body_trace:
  "kwargs_ok kw \<Longrightarrow>
   \<exists>evs. snd (get_body s u kw w) = w @ evs \<and> sent_requests evs = [get_request u kw]"
  by (auto simp: get_body_def send_def rate_limit_sleep_def
      split: outcome.splits sum.splits option.splits)

lemma put_body_trace:
  "\<exists>evs. snd (put_body s u p w) = w @ evs \<and> sent_requests evs = [put_request u p]"
  by (auto simp: put_body_def send_def rate_limit_sleep_def
      split: outcome.splits sum.splits option.splits)

lemma retrying_trace:
  assumes f: "\<And>w. \<exists>evs. snd (f w) = w @ evs \<and> sent_requests evs = [rq]"
  shows "\<exists>evs k. snd (retrying f n w) = w @ evs \<and> sent_requests evs = replicate k rq
           \<and> 1 \<le> k \<and> k \<le> max 1 (6 - n)"
  using f
proof (induction f n w rule: retrying.induct)
  case (1 f n w)
  note f = "1.prems"
  obtain r w1 where fw: "f w = (r, w1)" by (cases "f w")
  from f [of w] fw obtain evs where evs: "w1 = w @ evs" "sent_requests evs = [rq]"
    by auto
  show ?case
  proof (cases "\<exists>e. r = Inl e \<and> is_Exception e \<and> n < 5")
    case False
    then have "snd (retrying f n w) = w1"
      using fw by (subst retrying.simps) (auto split: sum.splits)
    with evs have "snd (retrying f n w) = w @ evs \<and> sent_requests evs = replicate 1 rq
           \<and> (1::nat) \<le> 1 \<and> 1 \<le> max 1 (6 - n)" by simp
    then show ?thesis by blast
  next
    case True
    then obtain e where e: "r = Inl e" "is_Exception e" "n < 5" by blast
    let ?w2 = "w1 @ [Slept (wait_exponential n)]"
    have step: "retrying f n w = retrying f (Suc n) ?w2"
      using retrying_again [of f w e w1 n] fw e by simp
    have "\<exists>evs2 k. snd (retrying f (Suc n) ?w2) = ?w2 @ evs2
        \<and> sent_requests evs2 = replicate k rq \<and> 1 \<le> k \<and> k \<le> max 1 (6 - Suc n)"
      using fw e by (intro "1.IH" [of r w1 e] f) simp_all
    then obtain evs2 k where
      k: "snd (retrying f (Suc n) ?w2) = ?w2 @ evs2" "sent_requests evs2 = replicate k rq"
         "1 \<le> k" "k \<le> max 1 (6 - Suc n)"
      by blast
    let ?all = "evs @ [Slept (wait_exponential n)] @ evs2"
    have "snd (retrying f n w) = w @ ?all"
      using step k(1) evs(1) by simp
    moreover have "sent_requests ?all = replicate (Suc k) rq"
      using evs(2) k(2) by (simp add: sent_requests_append)
    moreover have "1 \<le> Suc k" "Suc k \<le> max 1 (6 - n)"
      using k(3,4) e(3) by auto
    ultimately show ?thesis by blast
  qed
qed

subsection \<open>Retrying Request Executor\<close>

text \<open>
  Claim C2. When the session answers the first request of \<open>get\<close> with status 401,
  \<open>get\<close> raises at once: the trace grows by that one request and by nothing else (no
  sleep, no second request), the exception is the \<^verbatim>\<open>SystemExit\<close> that the retry
  decorator does not catch, and its message is the guidance text followed by the first
  400 characters of the response body at most.
\<close>

theorem get_unauthorized_immediately:
  assumes "kwargs_ok kw" and "s w (get_request u kw) = Returned r" and "status_code r = 401"
  shows "get s u kw w =
           (Inl (SystemExit (unauthorized_guidance @ take 400 (body_text r))),
            w @ [Sent (get_request u kw)])
       \<and> length (take 400 (body_text r)) \<le> 400
       \<and> \<not> is_Exception (SystemExit (unauthorized_guidance @ take 400 (body_text r)))"
proof -
  have "get s u kw w =
           (Inl (SystemExit (unauthorized_guidance @ take 400 (body_text r))),
            w @ [Sent (get_request u kw)])"
    unfolding get_def
    using retrying_fatal [of "get_body s u kw" w
        "SystemExit (unauthorized_guidance @ take 400 (body_text r))"
        "w @ [Sent (get_request u kw)]" 1]
      get_body_unauthorized [where s = s and w = w and u = u and kw = kw and r = r] assms
    by simp
  then show ?thesis by simp
qed

theorem get_unauthorized_immediately_witness:
  "kwargs_ok []
   \<and> always (plain_response 401 (replicate 500 CHR ''x'') None) [] (get_request ''u'' []) =
      Returned (plain_response 401 (replicate 500 CHR ''x'') None)
   \<and> status_code (plain_response 401 (replicate 500 CHR ''x'') None) = 401
   \<and> get (always (plain_response 401 (replicate 500 CHR ''x'') None)) ''u'' [] [] =
       (Inl (SystemExit (unauthorized_guidance @ replicate 400 CHR ''x'')),
        [Sent (get_request ''u'' [])])"
proof -
  let ?r = "plain_response 401 (replicate 500 CHR ''x'') None"
  have a: "always ?r [] (get_request ''u'' []) = Returned ?r" by (simp add: always_def)
  have b: "status_code ?r = 401" by (simp add: plain_response_def)
  have c: "take 400 (body_text ?r) = replicate 400 CHR ''x''"
    by (simp add: plain_response_def)
  from get_unauthorized_immediately [where kw = "[]" and s = "always ?r" and w = "[]"
      and u = "''u''" and r = ?r] c a b kwargs_ok_Nil
  show ?thesis by simp
qed

text \<open>
  Claim C3, as the code has it. When five attempts in a row of \<open>get\<close> or of \<open>put\<close>
  raise an \<^verbatim>\<open>Exception\<close> (each attempt starting from the world the one before left,
  after the decorator's sleep), the call fails after the fifth: what reaches the caller
  is a \<open>RetryError\<close> that holds the exception of the fifth attempt unchanged, and the
  world is the one the fifth attempt left. (The caller does not get the last exception
  itself: the decorator wraps it.)
\<close>

theorem retries_exhausted_raise_RetryError:
  assumes "(f = get_body s u kw \<and> run = get s u kw)
         \<or> (f = put_body s u payload \<and> run = put s u payload)"
    and "f w0 = (Inl e1, w1)" "is_Exception e1"
    and "f (w1 @ [Slept (wait_exponential 1)]) = (Inl e2, w2)" "is_Exception e2"
    and "f (w2 @ [Slept (wait_exponential 2)]) = (Inl e3, w3)" "is_Exception e3"
    and "f (w3 @ [Slept (wait_exponential 3)]) = (Inl e4, w4)" "is_Exception e4"
    and "f (w4 @ [Slept (wait_exponential 4)]) = (Inl e5, w5)" "is_Exception e5"
  shows "run w0 = (Inl (RetryError e5), w5)"
proof -
  have "retrying f 1 w0 = (Inl (RetryError e5), w5)"
    using retrying_five_failures [of f w0 e1 w1 e2 w2 e3 w3 e4 w4 e5 w5] assms(2-11)
    by blast
  moreover have "run = retrying f 1"
    using assms(1) by (auto simp: get_def put_def)
  ultimately show ?thesis by simp
qed

theorem retries_exhausted_witness:
  "get (always (plain_response 500 ''oops'' None)) ''u'' [] [] =
     (Inl (RetryError (HTTPError (plain_response 500 ''oops'' None))),
      [Sent (get_request ''u'' []), Slept 1, Sent (get_request ''u'' []), Slept 2,
       Sent (get_request ''u'' []), Slept 4, Sent (get_request ''u'' []), Slept 8,
       Sent (get_request ''u'' [])])"
proof -
  let ?r = "plain_response 500 ''oops'' None"
  let ?f = "get_body (always ?r) ''u'' []"
  let ?q = "Sent (get_request ''u'' [])"
  let ?e = "HTTPError ?r"
  have body: "?f w = (Inl ?e, w @ [?q])" for w
    by (simp add: get_body_def send_def always_def plain_response_def raise_for_status_def
        kwargs_ok_Nil)
  have "get (always ?r) ''u'' [] [] = (Inl (RetryError ?e),
      ((((([] @ [?q]) @ [Slept (wait_exponential 1)]) @ [?q]) @ [Slept (wait_exponential 2)] @ [?q])
         @ [Slept (wait_exponential 3)] @ [?q]) @ [Slept (wait_exponential 4)] @ [?q])"
    by (rule retries_exhausted_raise_RetryError
          [where f = ?f and s = "always ?r" and u = "''u''" and kw = "[]"
             and ?e1.0 = ?e and ?e2.0 = ?e and ?e3.0 = ?e and ?e4.0 = ?e])
       (simp_all add: body)
  then show ?thesis by (simp add: wait_exponential_def)
qed

theorem retries_exhausted_counterexample:
  "fst (get_body (always (plain_response 500 ''oops'' None)) ''u'' []
          [Sent (get_request ''u'' []), Slept 1, Sent (get_request ''u'' []), Slept 2,
           Sent (get_request ''u'' []), Slept 4, Sent (get_request ''u'' []), Slept 8]) =
     Inl (HTTPError (plain_response 500 ''oops'' None))
   \<and> fst (get (always (plain_response 500 ''oops'' None)) ''u'' [] []) =
     Inl (RetryError (HTTPError (plain_response 500 ''oops'' None)))
   \<and> fst (get (always (plain_response 500 ''oops'' None)) ''u'' [] []) \<noteq>
     Inl (HTTPError (plain_response 500 ''oops'' None))"
  by (simp add: eval_defs)

text \<open>
  Claim C1 on \<open>put\<close>, evaluated. \<open>get\<close> stops at a 401 (see C2); \<open>put\<close> has no such
  check: against a session that always answers 401 it sends five requests, sleeping
  1, 2, 4 and 8 seconds between them, and raises a \<open>RetryError\<close> around the
  \<^verbatim>\<open>HTTPError\<close> of the last one.
\<close>

theorem put_retries_unauthorized:
  "put (always (plain_response 401 ''denied'' None)) ''u'' (PDict []) [] =
     (Inl (RetryError (HTTPError (plain_response 401 ''denied'' None))),
      [Sent (put_request ''u'' (PDict [])), Slept 1,
       Sent (put_request ''u'' (PDict [])), Slept 2,
       Sent (put_request ''u'' (PDict [])), Slept 4,
       Sent (put_request ''u'' (PDict [])), Slept 8,
       Sent (put_request ''u'' (PDict []))])"
  by (simp add: eval_defs)

text \<open>
  Claim C4 at a \<^verbatim>\<open>Retry-After\<close> that is not a number, evaluated. With the header
  given as an HTTP date, \<^verbatim>\<open>int\<close> raises: the attempt ends in a \<^verbatim>\<open>ValueError\<close>
  with no sleep of its own, where an absent header sleeps one second and raises the
  rate-limit exception. The decorator still retries, after its own wait only; and when
  every attempt is answered so, the \<open>RetryError\<close> holds the \<^verbatim>\<open>ValueError\<close>.
\<close>

lemma py_int_date: "py_int ''Wed, 21 Oct 2015 07:28:00 GMT'' = None"
  by (simp add: py_int_def strip_def lstrip_def rstrip_def is_space_def is_digit_def)

lemma py_int_one: "py_int ''1'' = Some 1"
  by (simp add: py_int_def strip_def lstrip_def rstrip_def is_space_def is_digit_def digits_val_def)

theorem invalid_retry_after_raises:
  "get_body (always (rate_limited ''Wed, 21 Oct 2015 07:28:00 GMT'')) ''u'' [] [] =
     (Inl ValueError, [Sent (get_request ''u'' [])])
   \<and> get_body (always (plain_response 429 [] None)) ''u'' [] [] =
     (Inl (GenericException ''429 rate limited''), [Sent (get_request ''u'' []), Slept 1])
   \<and> get (first_then (rate_limited ''Wed, 21 Oct 2015 07:28:00 GMT'')
             (plain_response 200 [] (Some two_orgs))) ''u'' [] [] =
     (Inr two_orgs, [Sent (get_request ''u'' []), Slept 1, Sent (get_request ''u'' [])])
   \<and> get (first_then (plain_response 429 [] None)
             (plain_response 200 [] (Some two_orgs))) ''u'' [] [] =
     (Inr two_orgs, [Sent (get_request ''u'' []), Slept 1, Slept 1, Sent (get_request ''u'' [])])
   \<and> put (always (rate_limited ''Wed, 21 Oct 2015 07:28:00 GMT'')) ''u'' (PDict []) [] =
     (Inl (RetryError ValueError),
      [Sent (put_request ''u'' (PDict [])), Slept 1,
       Sent (put_request ''u'' (PDict [])), Slept 2,
       Sent (put_request ''u'' (PDict [])), Slept 4,
       Sent (put_request ''u'' (PDict [])), Slept 8,
       Sent (put_request ''u'' (PDict []))])"
  by (simp add: eval_defs py_int_date py_int_one)

subsection \<open>Resource Resolver\<close>

lemma scan_by_name_spec:
  "list_all is_entity items \<Longrightarrow> scan_by_name items name = Inr (spec_find_id items name)"
  by (induction items)
     (auto simp: py_get_def py_item_def is_entity_def is_dict_def field_def name_matches_def
        spec_find_id_def split: pyval.splits option.splits)

lemma spec_find_id_first:
  assumes "i < length items" "name_matches name (items ! i)"
    and "\<forall>j<i. \<not> name_matches name (items ! j)"
  shows "spec_find_id items name = (case field ''id'' (items ! i) of None \<Rightarrow> PNone | Some v \<Rightarrow> v)"
proof -
  have "List.find (name_matches name) items = Some (items ! i)"
    using assms by (auto simp: find_Some_iff)
  then show ?thesis by (simp add: spec_find_id_def)
qed

lemma spec_find_id_none:
  assumes "\<forall>x\<in>set items. \<not> name_matches name x"
  shows "spec_find_id items name = PNone"
proof -
  have "List.find (name_matches name) items = None"
    using assms by (auto simp: find_None_iff)
  then show ?thesis by (simp add: spec_find_id_def)
qed

lemma scan_by_name_skip:
  assumes "map_of kvs ''name'' = None"
  shows "scan_by_name (pre @ PDict kvs # post) name = scan_by_name (pre @ post) name"
  using assms by (induction pre) (auto simp: py_get_def split: sum.splits)

lemma find_org_id_by_name_list:
  "get s (BASE @ ''/organizations'') [] w = (Inr (PList items), w1) \<Longrightarrow>
   find_org_id_by_name s name w = (scan_by_name items name, w1)"
  by (simp add: find_org_id_by_name_def py_iter_def)

lemma find_network_id_list:
  "get s (BASE @ ''/organizations/'' @ org_id @ ''/networks'') [] w = (Inr (PList items), w1) \<Longrightarrow>
   find_network_id s org_id name w = (scan_by_name items name, w1)"
  by (simp add: find_network_id_def py_iter_def)

lemma get_trace:
  assumes "kwargs_ok kw"
  shows "\<exists>evs k. snd (get s u kw w) = w @ evs \<and> sent_requests evs = replicate k (get_request u kw)
     \<and> 1 \<le> k \<and> k \<le> 5"
  using retrying_trace [of "get_body s u kw" "get_request u kw" 1 w]
    get_body_trace [OF assms, of s u]
  by (simp add: get_def)

lemma snd_find_network_id:
  "snd (find_network_id s org_id name w) =
   snd (get s (BASE @ ''/organizations/'' @ org_id @ ''/networks'') [] w)"
  by (simp add: find_network_id_def split: prod.splits sum.splits)

lemma snd_find_org_id_by_name:
  "snd (find_org_id_by_name s name w) = snd (get s (BASE @ ''/organizations'') [] w)"
  by (simp add: find_org_id_by_name_def split: prod.splits sum.splits)

lemma names_of_dicts:
  "list_all is_dict items \<Longrightarrow> names_of items = Inr (map shown_name items)"
  by (induction items)
     (auto simp: py_get_def is_dict_def shown_name_def field_def split: pyval.splits option.splits)

text \<open>
  Claim C5. When the list that \<open>get\<close> returns holds entities (dictionaries with an
  id), \<open>find_org_id_by_name\<close> and \<open>find_network_id\<close> return what the specification
  says: the id of the first item whose name field is the target, exactly, and
  \<^verbatim>\<open>None\<close> when no item matches, so also on the empty list. Every request that
  \<open>find_network_id\<close> sends is a GET of the networks path built from the organization id
  it was given.
\<close>

theorem resolvers_return_first_match:
  assumes "list_all is_entity items"
  shows "(get s (BASE @ ''/organizations'') [] w = (Inr (PList items), w1) \<longrightarrow>
            find_org_id_by_name s name w = (Inr (spec_find_id items name), w1))
       \<and> (get s (BASE @ ''/organizations/'' @ org_id @ ''/networks'') [] w = (Inr (PList items), w1) \<longrightarrow>
            find_network_id s org_id name w = (Inr (spec_find_id items name), w1))
       \<and> (\<forall>i. i < length items \<and> name_matches name (items ! i)
                \<and> (\<forall>j. j < i \<longrightarrow> \<not> name_matches name (items ! j)) \<longrightarrow>
              Some (spec_find_id items name) = field ''id'' (items ! i))
       \<and> ((\<forall>x. x \<in> set items \<longrightarrow> \<not> name_matches name x) \<longrightarrow> spec_find_id items name = PNone)
       \<and> spec_find_id [] name = PNone
       \<and> (\<exists>evs k. snd (find_network_id s org_id name w) = w @ evs
             \<and> sent_requests evs =
                 replicate k (get_request (BASE @ ''/organizations/'' @ org_id @ ''/networks'') [])
             \<and> 1 \<le> k \<and> k \<le> 5)"
proof -
  have scan: "scan_by_name items name = Inr (spec_find_id items name)"
    using assms by (rule scan_by_name_spec)
  have a: "get s (BASE @ ''/organizations'') [] w = (Inr (PList items), w1) \<longrightarrow>
            find_org_id_by_name s name w = (Inr (spec_find_id items name), w1)"
    using find_org_id_by_name_list [of s w items w1 name] scan by simp
  have b: "get s (BASE @ ''/organizations/'' @ org_id @ ''/networks'') [] w = (Inr (PList items), w1) \<longrightarrow>
            find_network_id s org_id name w = (Inr (spec_find_id items name), w1)"
    using find_network_id_list [of s org_id w items w1 name] scan by simp
  have c: "Some (spec_find_id items name) = field ''id'' (items ! i)"
    if "i < length items" "name_matches name (items ! i)"
       "\<forall>j. j < i \<longrightarrow> \<not> name_matches name (items ! j)" for i
  proof -
    from that(1) assms have "is_entity (items ! i)" by (simp add: list_all_length)
    then obtain v where v: "field ''id'' (items ! i) = Some v" by (auto simp: is_entity_def)
    from spec_find_id_first [of i items name] that v show ?thesis by simp
  qed
  have d: "(\<forall>x. x \<in> set items \<longrightarrow> \<not> name_matches name x) \<longrightarrow> spec_find_id items name = PNone"
    using spec_find_id_none [of items name] by blast
  have e: "spec_find_id [] name = PNone" by (simp add: spec_find_id_def)
  have f: "\<exists>evs k. snd (find_network_id s org_id name w) = w @ evs
             \<and> sent_requests evs =
                 replicate k (get_request (BASE @ ''/organizations/'' @ org_id @ ''/networks'') [])
             \<and> 1 \<le> k \<and> k \<le> 5"
    unfolding snd_find_network_id by (rule get_trace [OF kwargs_ok_Nil])
  from a b c d e f show ?thesis by blast
qed

theorem resolvers_return_first_match_witness:
  "list_all is_entity
     [PDict [(''id'', PStr ''1''), (''name'', PStr ''A'')],
      PDict [(''id'', PStr ''2''), (''name'', PStr ''B'')]]
   \<and> find_org_id_by_name (always (plain_response 200 [] (Some two_orgs))) ''B'' [] =
       (Inr (PStr ''2''), [Sent (get_request (BASE @ ''/organizations'') [])])
   \<and> find_org_id_by_name (always (plain_response 200 [] (Some two_orgs))) ''Z'' [] =
       (Inr PNone, [Sent (get_request (BASE @ ''/organizations'') [])])
   \<and> find_network_id (always (plain_response 200 [] (Some two_orgs))) ''42'' ''A'' [] =
       (Inr (PStr ''1''), [Sent (get_request (BASE @ ''/organizations/'' @ ''42'' @ ''/networks'') [])])"
proof -
  let ?items = "[PDict [(''id'', PStr ''1''), (''name'', PStr ''A'')],
                 PDict [(''id'', PStr ''2''), (''name'', PStr ''B'')]]"
  let ?s = "always (plain_response 200 [] (Some two_orgs))"
  have ent: "list_all is_entity ?items"
    by (simp add: is_entity_def is_dict_def field_def)
  have g: "get ?s u [] [] = (Inr (PList ?items), [Sent (get_request u [])])" for u
    using get_two_orgs [of two_orgs u] by (simp add: two_orgs_def)
  have v: "spec_find_id ?items ''B'' = PStr ''2''" "spec_find_id ?items ''Z'' = PNone"
    "spec_find_id ?items ''A'' = PStr ''1''"
    by (simp_all add: spec_find_id_def name_matches_def field_def)
  from resolvers_return_first_match [where items = ?items and s = ?s and w = "[]"
      and ?w1.0 = "[Sent (get_request (BASE @ ''/organizations'') [])]" and name = "''B''"] ent g
  have b: "find_org_id_by_name ?s ''B'' [] =
       (Inr (spec_find_id ?items ''B''), [Sent (get_request (BASE @ ''/organizations'') [])])"
    by blast
  from resolvers_return_first_match [where items = ?items and s = ?s and w = "[]"
      and ?w1.0 = "[Sent (get_request (BASE @ ''/organizations'') [])]" and name = "''Z''"] ent g
  have z: "find_org_id_by_name ?s ''Z'' [] =
       (Inr (spec_find_id ?items ''Z''), [Sent (get_request (BASE @ ''/organizations'') [])])"
    by blast
  from resolvers_return_first_match [where items = ?items and s = ?s and w = "[]"
      and ?w1.0 = "[Sent (get_request (BASE @ ''/organizations/'' @ ''42'' @ ''/networks'') [])]" and name = "''A''" and org_id = "''42''"] ent g
  have n: "find_network_id ?s ''42'' ''A'' [] =
       (Inr (spec_find_id ?items ''A''),
        [Sent (get_request (BASE @ ''/organizations/'' @ ''42'' @ ''/networks'') [])])"
    by blast
  from ent b z n v show ?thesis by simp
qed

text \<open>
  Claim C10. An item without a name field does not make the scan fail and never
  matches: \<^verbatim>\<open>o.get("name")\<close> is \<^verbatim>\<open>None\<close> there, and the result of either resolver is
  the result on the list without that item, whatever comes before and after it.
\<close>

theorem nameless_entries_are_skipped:
  assumes "field ''name'' (PDict kvs) = None"
  shows "py_get (PDict kvs) ''name'' = Inr PNone
       \<and> \<not> name_matches name (PDict kvs)
       \<and> scan_by_name (pre @ PDict kvs # post) name = scan_by_name (pre @ post) name
       \<and> (get s (BASE @ ''/organizations'') [] w = (Inr (PList (pre @ PDict kvs # post)), w1) \<longrightarrow>
            find_org_id_by_name s name w = (scan_by_name (pre @ post) name, w1))
       \<and> (get s (BASE @ ''/organizations/'' @ org_id @ ''/networks'') [] w =
              (Inr (PList (pre @ PDict kvs # post)), w1) \<longrightarrow>
            find_network_id s org_id name w = (scan_by_name (pre @ post) name, w1))"
proof -
  from assms have m: "map_of kvs ''name'' = None" by (simp add: field_def)
  have a: "py_get (PDict kvs) ''name'' = Inr PNone" using m by (simp add: py_get_def)
  have b: "\<not> name_matches name (PDict kvs)" using assms by (simp add: name_matches_def)
  have c: "scan_by_name (pre @ PDict kvs # post) name = scan_by_name (pre @ post) name"
    using m by (rule scan_by_name_skip)
  have d: "get s (BASE @ ''/organizations'') [] w = (Inr (PList (pre @ PDict kvs # post)), w1) \<longrightarrow>
            find_org_id_by_name s name w = (scan_by_name (pre @ post) name, w1)"
    using find_org_id_by_name_list [of s w "pre @ PDict kvs # post" w1 name] c by simp
  have e: "get s (BASE @ ''/organizations/'' @ org_id @ ''/networks'') [] w =
              (Inr (PList (pre @ PDict kvs # post)), w1) \<longrightarrow>
            find_network_id s org_id name w = (scan_by_name (pre @ post) name, w1)"
    using find_network_id_list [of s org_id w "pre @ PDict kvs # post" w1 name] c by simp
  from a b c d e show ?thesis by blast
qed

theorem nameless_entries_are_skipped_witness:
  "field ''name'' (PDict [(''id'', PStr ''0'')]) = None
   \<and> find_org_id_by_name
        (always (plain_response 200 []
           (Some (PList [PDict [(''id'', PStr ''1''), (''name'', PStr ''A'')],
                         PDict [(''id'', PStr ''0'')],
                         PDict [(''id'', PStr ''2''), (''name'', PStr ''B'')]]))))
        ''B'' [] =
       (Inr (PStr ''2''), [Sent (get_request (BASE @ ''/organizations'') [])])
   \<and> find_network_id
        (always (plain_response 200 []
           (Some (PList [PDict [(''id'', PStr ''1''), (''name'', PStr ''A'')],
                         PDict [(''id'', PStr ''0'')],
                         PDict [(''id'', PStr ''2''), (''name'', PStr ''B'')]]))))
        ''42'' ''B'' [] =
       (Inr (PStr ''2''), [Sent (get_request (BASE @ ''/organizations/'' @ ''42'' @ ''/networks'') [])])"
proof -
  let ?pre = "[PDict [(''id'', PStr ''1''), (''name'', PStr ''A'')]]"
  let ?post = "[PDict [(''id'', PStr ''2''), (''name'', PStr ''B'')]]"
  let ?kvs = "[(''id'', PStr ''0'')]"
  let ?s = "always (plain_response 200 [] (Some (PList (?pre @ PDict ?kvs # ?post))))"
  have h: "field ''name'' (PDict ?kvs) = None" by (simp add: field_def)
  have g: "get ?s u [] [] = (Inr (PList (?pre @ PDict ?kvs # ?post)), [Sent (get_request u [])])" for u
    by (rule get_two_orgs)
  have v: "scan_by_name (?pre @ ?post) ''B'' = Inr (PStr ''2'')"
    by (simp add: py_get_def py_item_def)
  from nameless_entries_are_skipped [where kvs = ?kvs and s = ?s and pre = ?pre and post = ?post
      and w = "[]" and name = "''B''" and org_id = "''42''"
      and ?w1.0 = "[Sent (get_request (BASE @ ''/organizations'') [])]"] h g
  have o: "find_org_id_by_name ?s ''B'' [] =
          (scan_by_name (?pre @ ?post) ''B'', [Sent (get_request (BASE @ ''/organizations'') [])])"
    by blast
  from nameless_entries_are_skipped [where kvs = ?kvs and s = ?s and pre = ?pre and post = ?post
      and w = "[]" and name = "''B''" and org_id = "''42''"
      and ?w1.0 = "[Sent (get_request (BASE @ ''/organizations/'' @ ''42'' @ ''/networks'') [])]"] h g
  have n: "find_network_id ?s ''42'' ''B'' [] =
          (scan_by_name (?pre @ ?post) ''B'',
           [Sent (get_request (BASE @ ''/organizations/'' @ ''42'' @ ''/networks'') [])])"
    by blast
  note o n
  with h v show ?thesis by simp
qed

subsection \<open>Sanity check\<close>

lemma sanity_list_orgs_trace:
  "\<exists>ps. snd (sanity_list_orgs s w) = snd (get s (BASE @ ''/organizations'') [] w) @ ps
      \<and> sent_requests ps = []"
  by (auto simp: sanity_list_orgs_def split: prod.splits sum.splits)

lemma sanity_list_orgs_value:
  "fst (sanity_list_orgs s w) = Inr v \<Longrightarrow> v = PNone"
  by (auto simp: sanity_list_orgs_def split: prod.splits sum.splits)

text \<open>
  Claim C9, as the code has it. \<open>sanity_list_orgs\<close> calls \<open>get\<close> once, for the
  organization list: an error of that call is its own error, unchanged; on a list of
  dictionaries it prints the number of items and the first five names; and all the
  requests it sends, between one and five, are GETs of that one path. Its value is
  always \<^verbatim>\<open>None\<close>: the count is printed, not returned.
\<close>

theorem sanity_list_orgs_prints_count:
  "(get s (BASE @ ''/organizations'') [] w = (Inl e, w1) \<longrightarrow>
      sanity_list_orgs s w = (Inl e, w1))
   \<and> (get s (BASE @ ''/organizations'') [] w = (Inr (PList items), w1) \<and> list_all is_dict items \<longrightarrow>
      sanity_list_orgs s w =
        (Inr PNone,
         w1 @ [Printed (FetchedOrgs (length items)), Printed (Names (take 5 (map shown_name items)))]))
   \<and> (\<forall>v. fst (sanity_list_orgs s w) = Inr v \<longrightarrow> v = PNone)
   \<and> (\<exists>evs k. snd (sanity_list_orgs s w) = w @ evs
         \<and> sent_requests evs = replicate k (get_request (BASE @ ''/organizations'') [])
         \<and> 1 \<le> k \<and> k \<le> 5)"
proof -
  have a: "get s (BASE @ ''/organizations'') [] w = (Inl e, w1) \<longrightarrow>
      sanity_list_orgs s w = (Inl e, w1)"
    by (simp add: sanity_list_orgs_def)
  have b: "get s (BASE @ ''/organizations'') [] w = (Inr (PList items), w1) \<and> list_all is_dict items \<longrightarrow>
      sanity_list_orgs s w =
        (Inr PNone,
         w1 @ [Printed (FetchedOrgs (length items)), Printed (Names (take 5 (map shown_name items)))])"
    by (simp add: sanity_list_orgs_def py_len_def py_iter_def names_of_dicts)
  have c: "\<forall>v. fst (sanity_list_orgs s w) = Inr v \<longrightarrow> v = PNone"
    using sanity_list_orgs_value by blast
  obtain ps where ps: "snd (sanity_list_orgs s w) = snd (get s (BASE @ ''/organizations'') [] w) @ ps"
      "sent_requests ps = []"
    using sanity_list_orgs_trace by blast
  obtain evs k where g: "snd (get s (BASE @ ''/organizations'') [] w) = w @ evs"
      "sent_requests evs = replicate k (get_request (BASE @ ''/organizations'') [])" "1 \<le> k" "k \<le> 5"
    using get_trace [OF kwargs_ok_Nil] by blast
  have "snd (sanity_list_orgs s w) = w @ (evs @ ps)"
    using ps(1) g(1) by simp
  moreover have "sent_requests (evs @ ps) = replicate k (get_request (BASE @ ''/organizations'') [])"
    using ps(2) g(2) by (simp add: sent_requests_append)
  ultimately have d: "\<exists>evs k. snd (sanity_list_orgs s w) = w @ evs
         \<and> sent_requests evs = replicate k (get_request (BASE @ ''/organizations'') [])
         \<and> 1 \<le> k \<and> k \<le> 5"
    using g(3,4) by blast
  from a b c d show ?thesis by blast
qed

theorem sanity_list_orgs_prints_count_witness:
  "list_all is_dict
     [PDict [(''id'', PStr ''1''), (''name'', PStr ''A'')],
      PDict [(''id'', PStr ''2''), (''name'', PStr ''B'')]]
   \<and> sanity_list_orgs (always (plain_response 200 [] (Some two_orgs))) [] =
       (Inr PNone,
        [Sent (get_request (BASE @ ''/organizations'') []),
         Printed (FetchedOrgs 2), Printed (Names [PStr ''A'', PStr ''B''])])
   \<and> sanity_list_orgs (always (plain_response 401 ''denied'' None)) [] =
       (Inl (SystemExit (unauthorized_guidance @ ''denied'')),
        [Sent (get_request (BASE @ ''/organizations'') [])])"
proof -
  let ?items = "[PDict [(''id'', PStr ''1''), (''name'', PStr ''A'')],
                 PDict [(''id'', PStr ''2''), (''name'', PStr ''B'')]]"
  let ?s = "always (plain_response 200 [] (Some two_orgs))"
  let ?t = "always (plain_response 401 ''denied'' None)"
  let ?q = "Sent (get_request (BASE @ ''/organizations'') [])"
  have d: "list_all is_dict ?items" by (simp add: is_dict_def)
  have g: "get ?s (BASE @ ''/organizations'') [] [] = (Inr (PList ?items), [?q])"
    using get_two_orgs [of two_orgs "BASE @ ''/organizations''"] by (simp add: two_orgs_def)
  have h: "get ?t (BASE @ ''/organizations'') [] [] =
      (Inl (SystemExit (unauthorized_guidance @ ''denied'')), [?q])"
    by (simp add: eval_defs)
  have n: "map shown_name ?items = [PStr ''A'', PStr ''B'']"
    by (simp add: shown_name_def field_def)
  from sanity_list_orgs_prints_count [where s = ?s and w = "[]" and items = ?items and ?w1.0 = "[?q]"] d g
  have ok: "sanity_list_orgs ?s [] =
      (Inr PNone, [?q] @ [Printed (FetchedOrgs (length ?items)),
                          Printed (Names (take 5 (map shown_name ?items)))])"
    by blast
  from sanity_list_orgs_prints_count [where s = ?t and w = "[]"
      and e = "SystemExit (unauthorized_guidance @ ''denied'')" and ?w1.0 = "[?q]"] h
  have err: "sanity_list_orgs ?t [] = (Inl (SystemExit (unauthorized_guidance @ ''denied'')), [?q])"
    by blast
  from d ok err n show ?thesis by simp
qed

theorem sanity_list_orgs_returns_none_counterexample:
  "get (always (plain_response 200 [] (Some two_orgs))) (BASE @ ''/organizations'') [] [] =
     (Inr two_orgs, [Sent (get_request (BASE @ ''/organizations'') [])])
   \<and> py_len two_orgs = Inr 2
   \<and> fst (sanity_list_orgs (always (plain_response 200 [] (Some two_orgs))) []) = Inr PNone
   \<and> fst (sanity_list_orgs (always (plain_response 200 [] (Some two_orgs))) []) \<noteq> Inr (PInt 2)"
  by (simp add: get_two_orgs sanity_list_orgs_def two_orgs_def py_len_def py_iter_def py_get_def)

end
